theory Spec2Isabelle
  imports Main
begin

section \<open>Strings of the source language\<close>

text \<open>
  The report text is a Python \<open>str\<close>. A \<^typ>\<open>char\<close> stands for one code point below 256,
  and a \<^typ>\<open>string\<close> for a text made of such code points; the character classes below
  are Python's on that range. \<open>str.strip\<close>, \<open>str.split()\<close> and the regular expression
  class \<open>\s\<close> share one notion of white space; \<open>str.isdigit\<close> also accepts the three
  superscript digits, which the regular expression class \<open>\d\<close> does not.
\<close>

definition isspace_ch :: "char \<Rightarrow> bool" where
  "isspace_ch c \<longleftrightarrow>
     c \<in> set [CHR 0x09, CHR 0x0A, CHR 0x0B, CHR 0x0C, CHR 0x0D,
              CHR 0x1C, CHR 0x1D, CHR 0x1E, CHR 0x1F, CHR 0x20, CHR 0x85, CHR 0xA0]"

definition isdecimal_ch :: "char \<Rightarrow> bool" where
  "isdecimal_ch c \<longleftrightarrow> c \<in> set ''0123456789''"

definition isdigit_ch :: "char \<Rightarrow> bool" where
  "isdigit_ch c \<longleftrightarrow> isdecimal_ch c \<or> c \<in> set [CHR 0xB2, CHR 0xB3, CHR 0xB9]"

text \<open>\<open>s.isdigit()\<close>: at least one character, all of them digits.\<close>

definition isdigit :: "string \<Rightarrow> bool" where
  "isdigit s \<longleftrightarrow> s \<noteq> [] \<and> list_all isdigit_ch s"

text \<open>\<open>s.strip()\<close>.\<close>

definition strip :: "string \<Rightarrow> string" where
  "strip s = rev (dropWhile isspace_ch (rev (dropWhile isspace_ch s)))"

text \<open>\<open>s.split(c)\<close> for a one-character separator: never an empty list.\<close>

fun split_sep :: "char \<Rightarrow> string \<Rightarrow> string list" where
  "split_sep c [] = [[]]"
| "split_sep c (x # xs) =
     (if x = c then [] # split_sep c xs
      else (case split_sep c xs of [] \<Rightarrow> [[x]] | r # rs \<Rightarrow> (x # r) # rs))"

text \<open>\<open>s.split()\<close>: the maximal runs of characters that are not white space.\<close>

function split_ws :: "string \<Rightarrow> string list" where
  "split_ws s =
     (case dropWhile isspace_ch s of
        [] \<Rightarrow> []
      | c # cs \<Rightarrow>
          (c # takeWhile (\<lambda>x. \<not> isspace_ch x) cs)
            # split_ws (dropWhile (\<lambda>x. \<not> isspace_ch x) cs))"
  by pat_completeness auto
termination
proof (relation "measure length", goal_cases)
  case 1
  show ?case by simp
next
  case (2 s c cs)
  have "length (dropWhile (\<lambda>x. \<not> isspace_ch x) cs) \<le> length cs"
    by (rule length_dropWhile_le)
  moreover have "length (dropWhile isspace_ch s) \<le> length s"
    by (rule length_dropWhile_le)
  ultimately show ?case using 2 by simp
qed

text \<open>\<open>' '.join(xs)\<close>.\<close>

fun join_sp :: "string list \<Rightarrow> string" where
  "join_sp [] = []"
| "join_sp [x] = x"
| "join_sp (x # y # ys) = x @ '' '' @ join_sp (y # ys)"

text \<open>\<open>s.startswith(p)\<close>.\<close>

fun startswith :: "string \<Rightarrow> string \<Rightarrow> bool" where
  "startswith s [] = True"
| "startswith [] (p # ps) = False"
| "startswith (c # cs) (p # ps) = (c = p \<and> startswith cs ps)"

text \<open>\<open>sub in s\<close>.\<close>

fun contains :: "string \<Rightarrow> string \<Rightarrow> bool" where
  "contains sub [] = (sub = [])"
| "contains sub (c # cs) = (startswith (c # cs) sub \<or> contains sub cs)"

text \<open>\<open>s.split(c, 1)\<close>: one piece when \<open>c\<close> does not occur, two pieces otherwise.\<close>

definition split_once :: "char \<Rightarrow> string \<Rightarrow> string list" where
  "split_once c s =
     (if c \<in> set s then [takeWhile (\<lambda>x. x \<noteq> c) s, tl (dropWhile (\<lambda>x. x \<noteq> c) s)]
      else [s])"

section \<open>The regular expressions\<close>

text \<open>
  \<open>lit_prefix p s\<close> consumes the literal \<open>p\<close> at the start of \<open>s\<close> and returns the rest.
\<close>

fun lit_prefix :: "string \<Rightarrow> string \<Rightarrow> string option" where
  "lit_prefix [] s = Some s"
| "lit_prefix (p # ps) [] = None"
| "lit_prefix (p # ps) (c # cs) = (if c = p then lit_prefix ps cs else None)"

text \<open>
  \<open>re.match(r'^\s*Sr\.\s+AIR\s+NEET', line)\<close>. Each white-space run is followed by a
  letter, so the greedy run is the only way to match.
\<close>

definition match_header :: "string \<Rightarrow> bool" where
  "match_header line =
     (case lit_prefix ''Sr.'' (dropWhile isspace_ch line) of
        None \<Rightarrow> False
      | Some r1 \<Rightarrow>
          (case r1 of
             [] \<Rightarrow> False
           | c1 # _ \<Rightarrow>
               isspace_ch c1 \<and>
               (case lit_prefix ''AIR'' (dropWhile isspace_ch r1) of
                  None \<Rightarrow> False
                | Some r2 \<Rightarrow>
                    (case r2 of
                       [] \<Rightarrow> False
                     | c2 # _ \<Rightarrow>
                         isspace_ch c2 \<and>
                         lit_prefix ''NEET'' (dropWhile isspace_ch r2) \<noteq> None))))"

text \<open>
  \<open>re.match(r'^\(W\)$', t)\<close>: \<open>$\<close> also matches before a final newline.
\<close>

definition match_W :: "string \<Rightarrow> bool" where
  "match_W t \<longleftrightarrow> t = ''(W)'' \<or> t = ''(W)'' @ [CHR 0x0A]"

text \<open>\<open>re.match(r'^\d+:', t)\<close>: one or more decimal digits, then a colon.\<close>

definition match_code :: "string \<Rightarrow> bool" where
  "match_code t =
     (takeWhile isdecimal_ch t \<noteq> [] \<and>
      (case dropWhile isdecimal_ch t of [] \<Rightarrow> False | c # _ \<Rightarrow> c = CHR '':''))"

section \<open>Rows and the field extractor\<close>

datatype error = IndexError

text \<open>\<open>xs[i]\<close> for a non-negative index: out of range raises.\<close>

definition nth_py :: "'a list \<Rightarrow> nat \<Rightarrow> error + 'a" where
  "nth_py xs i = (if i < length xs then Inr (xs ! i) else Inl IndexError)"

record row =
  sr_no :: string
  air :: string
  neet_roll_no :: string
  cet_form_no :: string
  name :: string
  gender :: string
  category :: string
  quota :: string
  college_code :: string
  college_name :: string

definition VALID_CATEGORIES :: "string set" where
  "VALID_CATEGORIES =
     {''OBC'', ''SC'', ''ST'', ''SEBC'', ''NTC'', ''NTD'', ''NTB'', ''SBC'', ''EWS'', ''HA'',
      ''VJA'', ''SOBC'', ''D1'', ''D2'', ''D3'', ''PWD'', ''ORP-C''}"

text \<open>The set literal \<open>{'D1', 'D2', 'D3', 'PWD', 'ORP-C'}\<close> of the category block.\<close>

definition sub_codes :: "string set" where
  "sub_codes = {''D1'', ''D2'', ''D3'', ''PWD'', ''ORP-C''}"

text \<open>
  The guard \<open>idx < len(parts) and P(parts[idx])\<close>: the token is read only when the index
  is in range.
\<close>

definition tok_is :: "string list \<Rightarrow> nat \<Rightarrow> (string \<Rightarrow> bool) \<Rightarrow> error + bool" where
  "tok_is parts idx P =
     (if idx < length parts
      then (case nth_py parts idx of Inl e \<Rightarrow> Inl e | Inr t \<Rightarrow> Inr (P t))
      else Inr False)"

text \<open>
  One mandatory numeric field: the token and the advanced index, or \<open>None\<close> where the
  source logs a warning and leaves the row.
\<close>

definition digit_field :: "string list \<Rightarrow> nat \<Rightarrow> error + (string \<times> nat) option" where
  "digit_field parts idx =
     (case tok_is parts idx isdigit of
        Inl e \<Rightarrow> Inl e
      | Inr b \<Rightarrow>
          if b then (case nth_py parts idx of
                       Inl e \<Rightarrow> Inl e
                     | Inr t \<Rightarrow> Inr (Some (t, idx + 1)))
          else Inr None)"

text \<open>The name loop: tokens up to the first \<open>M\<close> or \<open>F\<close>.\<close>

function name_loop :: "string list \<Rightarrow> nat \<Rightarrow> string list \<Rightarrow> error + (string list \<times> nat)" where
  "name_loop parts idx name_parts =
     (if idx < length parts
      then (case nth_py parts idx of
              Inl e \<Rightarrow> Inl e
            | Inr t \<Rightarrow>
                if t \<notin> set [''M'', ''F'']
                then name_loop parts (idx + 1) (name_parts @ [t])
                else Inr (name_parts, idx))
      else Inr (name_parts, idx))"
  by pat_completeness auto
termination
  by (relation "measure (\<lambda>(parts, idx, name_parts). length parts - idx)") auto

definition gender_field :: "string list \<Rightarrow> nat \<Rightarrow> error + (string \<times> nat)" where
  "gender_field parts idx =
     (case tok_is parts idx (\<lambda>t. t \<in> set [''M'', ''F'']) of
        Inl e \<Rightarrow> Inl e
      | Inr b \<Rightarrow>
          if b then (case nth_py parts idx of
                       Inl e \<Rightarrow> Inl e
                     | Inr t \<Rightarrow> Inr (t, idx + 1))
          else Inr ([], idx))"

text \<open>The category block; the result is \<open>cat.strip()\<close> and the index after it.\<close>

definition category_field :: "string list \<Rightarrow> nat \<Rightarrow> error + (string \<times> nat)" where
  "category_field parts idx =
     (case tok_is parts idx (\<lambda>t. t \<in> VALID_CATEGORIES) of
        Inl e \<Rightarrow> Inl e
      | Inr v \<Rightarrow>
          if v then
            (case tok_is parts (idx + 1) match_W of
               Inl e \<Rightarrow> Inl e
             | Inr w \<Rightarrow>
                 if w then Inr (strip [], idx)
                 else
                   (case nth_py parts idx of
                      Inl e \<Rightarrow> Inl e
                    | Inr cat \<Rightarrow>
                        (case tok_is parts (idx + 1) (\<lambda>t. t \<in> sub_codes) of
                           Inl e \<Rightarrow> Inl e
                         | Inr s \<Rightarrow>
                             if s \<and> cat \<notin> sub_codes
                             then (case nth_py parts (idx + 1) of
                                     Inl e \<Rightarrow> Inl e
                                   | Inr t \<Rightarrow> Inr (strip (cat @ '' '' @ t), idx + 2))
                             else Inr (strip cat, idx + 1))))
          else Inr (strip [], idx))"

text \<open>The quota loop: tokens up to the first one shaped like a college code.\<close>

function quota_loop :: "string list \<Rightarrow> nat \<Rightarrow> string list \<Rightarrow> error + (string list \<times> nat)" where
  "quota_loop parts idx quota_parts =
     (if idx < length parts
      then (case nth_py parts idx of
              Inl e \<Rightarrow> Inl e
            | Inr t \<Rightarrow>
                if \<not> match_code t
                then quota_loop parts (idx + 1) (quota_parts @ [t])
                else Inr (quota_parts, idx))
      else Inr (quota_parts, idx))"
  by pat_completeness auto
termination
  by (relation "measure (\<lambda>(parts, idx, quota_parts). length parts - idx)") auto

definition quota_field :: "string list \<Rightarrow> nat \<Rightarrow> error + (string \<times> nat)" where
  "quota_field parts idx =
     (case quota_loop parts idx [] of
        Inl e \<Rightarrow> Inl e
      | Inr (quota_parts, idx') \<Rightarrow>
          (let q = (if quota_parts \<noteq> [] then join_sp quota_parts else [])
           in Inr (if startswith q ''Choice'' then ''Choice Not Available'' else q, idx')))"

text \<open>College code and college name, from the tokens left.\<close>

definition college_fields :: "string list \<Rightarrow> nat \<Rightarrow> error + (string \<times> string)" where
  "college_fields parts idx =
     (if idx < length parts then
        (let college_parts = split_once CHR '':'' (join_sp (drop idx parts))
         in if length college_parts = 2 then
              (case nth_py college_parts 0 of
                 Inl e \<Rightarrow> Inl e
               | Inr c0 \<Rightarrow>
                   (case nth_py college_parts 1 of
                      Inl e \<Rightarrow> Inl e
                    | Inr c1 \<Rightarrow> Inr (strip c0, strip c1)))
            else Inr ([], []))
      else Inr ([], []))"

text \<open>
  What the body of \<open>if in_table:\<close> does with the tokens of one line: it leaves the line as
  not a data row (counted as skipped), leaves it at a mandatory field (a warning, not
  counted), or appends a row.
\<close>

datatype row_result = NotDataRow | InvalidField | Parsed row

definition extract_row :: "string list \<Rightarrow> error + row_result" where
  "extract_row parts =
     (if parts = [] then Inr NotDataRow
      else
        (case nth_py parts 0 of
           Inl e \<Rightarrow> Inl e
         | Inr t0 \<Rightarrow>
        if \<not> isdigit t0 then Inr NotDataRow
        else
        (case digit_field parts 0 of
           Inl e \<Rightarrow> Inl e
         | Inr None \<Rightarrow> Inr InvalidField
         | Inr (Some (f1, i1)) \<Rightarrow>
        (case digit_field parts i1 of
           Inl e \<Rightarrow> Inl e
         | Inr None \<Rightarrow> Inr InvalidField
         | Inr (Some (f2, i2)) \<Rightarrow>
        (case digit_field parts i2 of
           Inl e \<Rightarrow> Inl e
         | Inr None \<Rightarrow> Inr InvalidField
         | Inr (Some (f3, i3)) \<Rightarrow>
        (case digit_field parts i3 of
           Inl e \<Rightarrow> Inl e
         | Inr None \<Rightarrow> Inr InvalidField
         | Inr (Some (f4, i4)) \<Rightarrow>
        (case name_loop parts i4 [] of
           Inl e \<Rightarrow> Inl e
         | Inr (name_parts, i5) \<Rightarrow>
        (case gender_field parts i5 of
           Inl e \<Rightarrow> Inl e
         | Inr (g, i6) \<Rightarrow>
        (case category_field parts i6 of
           Inl e \<Rightarrow> Inl e
         | Inr (cat, i7) \<Rightarrow>
        (case quota_field parts i7 of
           Inl e \<Rightarrow> Inl e
         | Inr (q, i8) \<Rightarrow>
        (case college_fields parts i8 of
           Inl e \<Rightarrow> Inl e
         | Inr (code, cname) \<Rightarrow>
             Inr (Parsed \<lparr>sr_no = f1, air = f2, neet_roll_no = f3, cet_form_no = f4,
                          name = (if name_parts \<noteq> [] then join_sp name_parts else []),
                          gender = g, category = cat, quota = q,
                          college_code = code, college_name = cname\<rparr>))))))))))))"

section \<open>The line loop\<close>

record parse_state =
  in_table :: bool
  skip_next_line :: bool
  data :: "row list"
  row_count :: nat
  skipped_lines :: nat

definition init_state :: parse_state where
  "init_state = \<lparr>in_table = False, skip_next_line = False, data = [], row_count = 0,
                  skipped_lines = 0\<rparr>"

definition skipped :: "parse_state \<Rightarrow> parse_state" where
  "skipped st = st\<lparr>skipped_lines := skipped_lines st + 1\<rparr>"

text \<open>The table-start test of the loop: the regular expression or the literal.\<close>

definition is_table_start :: "string \<Rightarrow> bool" where
  "is_table_start line \<longleftrightarrow> match_header line \<or> contains ''Sr.     AIR     NEET'' line"

definition noise_prefixes :: "string list" where
  "noise_prefixes = [''GOVERNMENT'', ''Note:'', ''Admissions'', ''SELECTION'', ''Printed'', ''I.Q.:'']"

text \<open>One pass of the loop body, on the raw line; the tests are in the source's order.\<close>

definition process_line :: "parse_state \<Rightarrow> string \<Rightarrow> error + parse_state" where
  "process_line st raw =
     (let line = strip raw in
      if line = [] then Inr (skipped st)
      else if is_table_start line then Inr (st\<lparr>in_table := True, skip_next_line := True\<rparr>)
      else if skip_next_line st then Inr ((skipped st)\<lparr>skip_next_line := False\<rparr>)
      else if contains ''Legends :'' line then Inr (st\<lparr>in_table := False\<rparr>)
      else if \<not> in_table st \<and> list_ex (startswith line) noise_prefixes then Inr (skipped st)
      else if contains ''Current Selection Details'' line then Inr (skipped st)
      else if startswith line ''----'' \<or> startswith line ''===='' then Inr (skipped st)
      else if in_table st then
        (case extract_row (split_ws line) of
           Inl e \<Rightarrow> Inl e
         | Inr NotDataRow \<Rightarrow> Inr (skipped st)
         | Inr InvalidField \<Rightarrow> Inr st
         | Inr (Parsed r) \<Rightarrow> Inr (st\<lparr>data := data st @ [r], row_count := row_count st + 1\<rparr>))
      else Inr st)"

text \<open>
  The path condition of the body of \<open>if in_table:\<close>: no earlier test of the loop body
  takes the line, and the table flag is set.
\<close>

definition in_table_line :: "parse_state \<Rightarrow> string \<Rightarrow> bool" where
  "in_table_line st raw \<longleftrightarrow>
     (let line = strip raw in
      line \<noteq> [] \<and> \<not> is_table_start line \<and> \<not> skip_next_line st \<and>
      \<not> contains ''Legends :'' line \<and>
      \<not> contains ''Current Selection Details'' line \<and>
      \<not> (startswith line ''----'' \<or> startswith line ''===='') \<and> in_table st)"

fun parse_lines :: "parse_state \<Rightarrow> string list \<Rightarrow> error + parse_state" where
  "parse_lines st [] = Inr st"
| "parse_lines st (l # ls) =
     (case process_line st l of Inl e \<Rightarrow> Inl e | Inr st' \<Rightarrow> parse_lines st' ls)"

text \<open>\<open>parse_text_file\<close>: the rows in the order they were appended.\<close>

definition parse_text_file :: "string \<Rightarrow> error + row list" where
  "parse_text_file text =
     (case parse_lines init_state (split_sep CHR 0x0A text) of
        Inl e \<Rightarrow> Inl e
      | Inr st \<Rightarrow> Inr (data st))"

section \<open>The extractor never raises\<close>

declare split_ws.simps [simp del] name_loop.simps [simp del] quota_loop.simps [simp del]

lemma nth_py_in_range: "i < length xs \<Longrightarrow> nth_py xs i = Inr (xs ! i)"
  by (simp add: nth_py_def)

lemma tok_is_eq: "tok_is parts idx P = Inr (idx < length parts \<and> P (parts ! idx))"
  by (simp add: tok_is_def nth_py_def)

lemma digit_field_eq:
  "digit_field parts idx =
     Inr (if idx < length parts \<and> isdigit (parts ! idx) then Some (parts ! idx, idx + 1) else None)"
  by (simp add: digit_field_def tok_is_eq nth_py_def)

lemma name_loop_eq:
  "name_loop parts idx acc =
     Inr (acc @ takeWhile (\<lambda>t. t \<notin> set [''M'', ''F'']) (drop idx parts),
          idx + length (takeWhile (\<lambda>t. t \<notin> set [''M'', ''F'']) (drop idx parts)))"
proof (induction parts idx acc rule: name_loop.induct)
  case (1 parts idx name_parts)
  show ?case
  proof (cases "idx < length parts")
    case False
    then show ?thesis by (subst name_loop.simps) simp
  next
    case True
    then have d: "drop idx parts = parts ! idx # drop (Suc idx) parts"
      by (simp add: Cons_nth_drop_Suc)
    show ?thesis
    proof (cases "parts ! idx \<notin> set [''M'', ''F'']")
      case False
      with True d show ?thesis
        by (subst name_loop.simps) (simp add: nth_py_in_range)
    next
      case notmf: True
      have "name_loop parts idx name_parts = name_loop parts (idx + 1) (name_parts @ [parts ! idx])"
        using True notmf by (subst name_loop.simps) (simp add: nth_py_in_range)
      also have "\<dots> = Inr ((name_parts @ [parts ! idx]) @ takeWhile (\<lambda>t. t \<notin> set [''M'', ''F'']) (drop (idx + 1) parts),
          (idx + 1) + length (takeWhile (\<lambda>t. t \<notin> set [''M'', ''F'']) (drop (idx + 1) parts)))"
        using "1.IH"[OF True nth_py_in_range[OF True] notmf] .
      finally show ?thesis using notmf d by simp
    qed
  qed
qed

lemma quota_loop_eq:
  "quota_loop parts idx acc =
     Inr (acc @ takeWhile (\<lambda>t. \<not> match_code t) (drop idx parts),
          idx + length (takeWhile (\<lambda>t. \<not> match_code t) (drop idx parts)))"
proof (induction parts idx acc rule: quota_loop.induct)
  case (1 parts idx quota_parts)
  show ?case
  proof (cases "idx < length parts")
    case False
    then show ?thesis by (subst quota_loop.simps) simp
  next
    case True
    then have d: "drop idx parts = parts ! idx # drop (Suc idx) parts"
      by (simp add: Cons_nth_drop_Suc)
    show ?thesis
    proof (cases "\<not> match_code (parts ! idx)")
      case False
      with True d show ?thesis
        by (subst quota_loop.simps) (simp add: nth_py_in_range)
    next
      case nocode: True
      have "quota_loop parts idx quota_parts = quota_loop parts (idx + 1) (quota_parts @ [parts ! idx])"
        using True nocode by (subst quota_loop.simps) (simp add: nth_py_in_range)
      also have "\<dots> = Inr ((quota_parts @ [parts ! idx]) @ takeWhile (\<lambda>t. \<not> match_code t) (drop (idx + 1) parts),
          (idx + 1) + length (takeWhile (\<lambda>t. \<not> match_code t) (drop (idx + 1) parts)))"
        using "1.IH"[OF True nth_py_in_range[OF True] nocode] .
      finally show ?thesis using nocode d by simp
    qed
  qed
qed

lemma gender_field_eq:
  "gender_field parts idx =
     Inr (if idx < length parts \<and> parts ! idx \<in> set [''M'', ''F''] then (parts ! idx, idx + 1)
          else ([], idx))"
  by (simp add: gender_field_def tok_is_eq nth_py_def)

lemma gender_field_total: "\<exists>g i. gender_field parts idx = Inr (g, i)"
  by (simp add: gender_field_eq)

lemma category_field_total: "\<exists>c i. category_field parts idx = Inr (c, i)"
  by (simp add: category_field_def tok_is_eq nth_py_def)

lemma quota_field_total: "\<exists>q i. quota_field parts idx = Inr (q, i)"
  by (simp add: quota_field_def quota_loop_eq Let_def)

lemma length_split_once: "length (split_once c s) = 2 \<longleftrightarrow> c \<in> set s"
  by (simp add: split_once_def)

lemma college_fields_total: "\<exists>c n. college_fields parts idx = Inr (c, n)"
  by (simp add: college_fields_def Let_def nth_py_def)


lemma takeWhile_four:
  "4 \<le> length (takeWhile P xs) \<longleftrightarrow>
     4 \<le> length xs \<and> P (xs ! 0) \<and> P (xs ! 1) \<and> P (xs ! 2) \<and> P (xs ! 3)"
proof (cases xs)
  case Nil
  then show ?thesis by simp
next
  case a: (Cons a as)
  show ?thesis
  proof (cases as)
    case Nil
    with a show ?thesis by simp
  next
    case b: (Cons b bs)
    show ?thesis
    proof (cases bs)
      case Nil
      with a b show ?thesis by simp
    next
      case c: (Cons c cs)
      show ?thesis
      proof (cases cs)
        case Nil
        with a b c show ?thesis by simp
      next
        case (Cons d ds)
        with a b c show ?thesis by simp
      qed
    qed
  qed
qed

lemma extract_row_reject:
  assumes "length (takeWhile isdigit parts) < 4"
  shows "extract_row parts = Inr NotDataRow \<or> extract_row parts = Inr InvalidField"
proof -
  from assms have n: "\<not> (4 \<le> length parts \<and> isdigit (parts ! 0) \<and> isdigit (parts ! 1)
      \<and> isdigit (parts ! 2) \<and> isdigit (parts ! 3))"
    using takeWhile_four[of isdigit parts] by simp
  show ?thesis
  proof (cases "parts = [] \<or> \<not> isdigit (parts ! 0)")
    case True
    then show ?thesis by (auto simp: extract_row_def nth_py_def)
  next
    case False
    then have p0: "parts \<noteq> []" "isdigit (parts ! 0)" by simp_all
    show ?thesis
    proof (cases "1 < length parts \<and> isdigit (parts ! 1)")
      case False
      with p0 show ?thesis by (simp add: extract_row_def nth_py_def digit_field_eq eval_nat_numeral)
    next
      case p1: True
      show ?thesis
      proof (cases "2 < length parts \<and> isdigit (parts ! 2)")
        case False
        with p0 p1 show ?thesis by (simp add: extract_row_def nth_py_def digit_field_eq eval_nat_numeral)
      next
        case p2: True
        with n p0 p1 have "\<not> (3 < length parts \<and> isdigit (parts ! 3))" by auto
        with p0 p1 p2 show ?thesis by (auto simp: extract_row_def nth_py_def digit_field_eq eval_nat_numeral)
      qed
    qed
  qed
qed

lemma extract_row_accept:
  assumes "4 \<le> length (takeWhile isdigit parts)"
  shows "\<exists>g i6 cat i7 q i8 code cname.
     gender_field parts (4 + length (takeWhile (\<lambda>t. t \<notin> set [''M'', ''F'']) (drop 4 parts))) = Inr (g, i6) \<and>
     category_field parts i6 = Inr (cat, i7) \<and>
     quota_field parts i7 = Inr (q, i8) \<and>
     college_fields parts i8 = Inr (code, cname) \<and>
     extract_row parts =
       Inr (Parsed \<lparr>sr_no = parts ! 0, air = parts ! 1, neet_roll_no = parts ! 2,
                    cet_form_no = parts ! 3,
                    name = join_sp (takeWhile (\<lambda>t. t \<notin> set [''M'', ''F'']) (drop 4 parts)),
                    gender = g, category = cat, quota = q,
                    college_code = code, college_name = cname\<rparr>)"
proof -
  from assms have d: "4 \<le> length parts" "isdigit (parts ! 0)" "isdigit (parts ! 1)"
      "isdigit (parts ! 2)" "isdigit (parts ! 3)"
    using takeWhile_four[of isdigit parts] by simp_all
  then have ne: "parts \<noteq> []" by auto
  define ns where "ns = takeWhile (\<lambda>t. t \<notin> set [''M'', ''F'']) (drop 4 parts)"
  obtain g i6 where g: "gender_field parts (4 + length ns) = Inr (g, i6)"
    using gender_field_total by blast
  obtain cat i7 where c: "category_field parts i6 = Inr (cat, i7)"
    using category_field_total by blast
  obtain q i8 where q: "quota_field parts i7 = Inr (q, i8)"
    using quota_field_total by blast
  obtain code cname where k: "college_fields parts i8 = Inr (code, cname)"
    using college_fields_total by blast
  have nm: "(if ns \<noteq> [] then join_sp ns else []) = join_sp ns"
    by simp
  have nl: "name_loop parts 4 [] = Inr (ns, 4 + length ns)"
    by (simp add: name_loop_eq ns_def)
  have "extract_row parts =
       Inr (Parsed \<lparr>sr_no = parts ! 0, air = parts ! 1, neet_roll_no = parts ! 2,
                    cet_form_no = parts ! 3, name = join_sp ns,
                    gender = g, category = cat, quota = q,
                    college_code = code, college_name = cname\<rparr>)"
    unfolding extract_row_def
    using d ne nl g c q k
    by (simp add: digit_field_eq nth_py_def nm eval_nat_numeral)
  with g c q k show ?thesis unfolding ns_def by blast
qed

lemma extract_row_total: "\<exists>r. extract_row parts = Inr r"
proof (cases "4 \<le> length (takeWhile isdigit parts)")
  case True
  from extract_row_accept[OF this] show ?thesis by blast
next
  case False
  then have "length (takeWhile isdigit parts) < 4" by simp
  from extract_row_reject[OF this] show ?thesis by blast
qed

lemma process_line_total: "\<exists>st'. process_line st raw = Inr st'"
proof -
  obtain r where r: "extract_row (split_ws (strip raw)) = Inr r"
    using extract_row_total by blast
  show ?thesis
    by (cases r) (simp_all add: process_line_def Let_def r)
qed

lemma parse_lines_total: "\<exists>st'. parse_lines st ls = Inr st'"
proof (induction ls arbitrary: st)
  case Nil
  show ?case by simp
next
  case (Cons l ls)
  obtain st1 where "process_line st l = Inr st1"
    using process_line_total by blast
  with Cons.IH[of st1] show ?case by simp
qed

text \<open>
  C8: for every input text the parse returns a row sequence. Every index read of the model
  can raise \<open>IndexError\<close>; none does, since each one is inside its own range test, and
  each loop ends, since its index grows towards the length of the token list.
\<close>

theorem parse_text_file_total: "\<exists>rows. parse_text_file text = Inr rows"
proof -
  obtain st where "parse_lines init_state (split_sep CHR 0x0A text) = Inr st"
    using parse_lines_total by blast
  then show ?thesis by (simp add: parse_text_file_def)
qed

section \<open>The line loop: table start, pending skip, table end\<close>

lemma is_table_start_nonempty: "is_table_start line \<Longrightarrow> line \<noteq> []"
  by (auto simp: is_table_start_def match_header_def)

lemma contains_nonempty: "contains (p # ps) line \<Longrightarrow> line \<noteq> []"
  by auto

lemma process_line_blank: "strip raw = [] \<Longrightarrow> process_line st raw = Inr (skipped st)"
  by (simp add: process_line_def)

lemma process_line_header:
  "is_table_start (strip raw) \<Longrightarrow>
   process_line st raw = Inr (st\<lparr>in_table := True, skip_next_line := True\<rparr>)"
  using is_table_start_nonempty[of "strip raw"] by (simp add: process_line_def Let_def)

lemma process_line_pending:
  "strip raw \<noteq> [] \<Longrightarrow> \<not> is_table_start (strip raw) \<Longrightarrow> skip_next_line st \<Longrightarrow>
   process_line st raw = Inr ((skipped st)\<lparr>skip_next_line := False\<rparr>)"
  by (simp add: process_line_def Let_def)

lemma process_line_legends:
  "contains ''Legends :'' (strip raw) \<Longrightarrow> \<not> is_table_start (strip raw) \<Longrightarrow>
   \<not> skip_next_line st \<Longrightarrow> process_line st raw = Inr (st\<lparr>in_table := False\<rparr>)"
  using contains_nonempty[of _ _ "strip raw"] by (auto simp add: process_line_def Let_def)

lemma process_line_in_table:
  "in_table_line st raw \<Longrightarrow>
   process_line st raw =
     (case extract_row (split_ws (strip raw)) of
        Inl e \<Rightarrow> Inl e
      | Inr NotDataRow \<Rightarrow> Inr (skipped st)
      | Inr InvalidField \<Rightarrow> Inr st
      | Inr (Parsed r) \<Rightarrow> Inr (st\<lparr>data := data st @ [r], row_count := row_count st + 1\<rparr>))"
  by (simp add: in_table_line_def process_line_def Let_def)

lemma process_line_outside:
  assumes "\<not> in_table st" "\<not> is_table_start (strip raw)"
  shows "\<exists>st'. process_line st raw = Inr st' \<and> data st' = data st \<and> \<not> in_table st'
           \<and> row_count st' = row_count st \<and> (\<not> skip_next_line st \<longrightarrow> \<not> skip_next_line st')"
  using assms by (simp add: process_line_def Let_def skipped_def)

lemma parse_lines_outside:
  assumes "\<not> in_table st" "\<forall>l\<in>set ls. \<not> is_table_start (strip l)"
  shows "\<exists>st'. parse_lines st ls = Inr st' \<and> data st' = data st \<and> \<not> in_table st'
           \<and> row_count st' = row_count st \<and> (\<not> skip_next_line st \<longrightarrow> \<not> skip_next_line st')"
  using assms
proof (induction ls arbitrary: st)
  case Nil
  then show ?case by simp
next
  case (Cons l ls)
  from Cons.prems obtain st1 where s1: "process_line st l = Inr st1" "data st1 = data st"
      "\<not> in_table st1" "row_count st1 = row_count st" "\<not> skip_next_line st \<longrightarrow> \<not> skip_next_line st1"
    using process_line_outside[of st l] by auto
  from Cons.IH[OF s1(3)] Cons.prems obtain st2 where s2: "parse_lines st1 ls = Inr st2"
      "data st2 = data st1" "\<not> in_table st2" "row_count st2 = row_count st1"
      "\<not> skip_next_line st1 \<longrightarrow> \<not> skip_next_line st2"
    by auto
  from s1 s2 show ?case by simp
qed

lemma parse_lines_append:
  "parse_lines st (xs @ ys) =
     (case parse_lines st xs of Inl e \<Rightarrow> Inl e | Inr st' \<Rightarrow> parse_lines st' ys)"
  by (induction xs arbitrary: st) (auto split: sum.splits)

text \<open>
  C9: the lines before the first table-start line produce no row. After them the row list
  is still empty and the table flag still unset, and the rows of the whole text are the
  rows that the remaining lines produce from that state.
\<close>

theorem no_rows_before_header:
  assumes "split_sep CHR 0x0A text = pre @ post"
    and "\<forall>l\<in>set pre. \<not> is_table_start (strip l)"
  shows "\<not> in_table init_state \<and>
         (\<exists>st. parse_lines init_state pre = Inr st \<and> data st = [] \<and> \<not> in_table st \<and>
           parse_text_file text =
             (case parse_lines st post of Inl e \<Rightarrow> Inl e | Inr st' \<Rightarrow> Inr (data st')))"
proof -
  have "\<not> in_table init_state" by (simp add: init_state_def)
  from parse_lines_outside[OF this assms(2)] obtain st where
    st: "parse_lines init_state pre = Inr st" "data st = data init_state" "\<not> in_table st"
    by blast
  have "parse_text_file text =
      (case parse_lines st post of Inl e \<Rightarrow> Inl e | Inr st' \<Rightarrow> Inr (data st'))"
    by (simp add: parse_text_file_def assms(1) parse_lines_append st(1))
  with st show ?thesis by (simp add: init_state_def)
qed

theorem no_rows_before_header_witness:
  "\<not> is_table_start (strip ''Note: x'') \<and> \<not> is_table_start (strip ''1 2 3 4 A M'') \<and>
   (\<exists>st. parse_lines init_state [''Note: x'', ''1 2 3 4 A M''] = Inr st \<and> data st = [] \<and>
      \<not> in_table st \<and>
      parse_text_file (''Note: x'' @ [CHR 0x0A] @ ''1 2 3 4 A M'' @ [CHR 0x0A] @ ''Sr. AIR NEET''
                         @ [CHR 0x0A] @ ''No.'' @ [CHR 0x0A] @ ''5 6 7 8 B F'') =
        (case parse_lines st [''Sr. AIR NEET'', ''No.'', ''5 6 7 8 B F''] of
           Inl e \<Rightarrow> Inl e | Inr st' \<Rightarrow> Inr (data st')))"
proof -
  have h1: "split_sep CHR 0x0A (''Note: x'' @ [CHR 0x0A] @ ''1 2 3 4 A M'' @ [CHR 0x0A] @ ''Sr. AIR NEET''
                         @ [CHR 0x0A] @ ''No.'' @ [CHR 0x0A] @ ''5 6 7 8 B F'') =
      [''Note: x'', ''1 2 3 4 A M''] @ [''Sr. AIR NEET'', ''No.'', ''5 6 7 8 B F'']"
    by simp
  have a: "\<not> is_table_start (strip ''Note: x'')" by code_simp
  have b: "\<not> is_table_start (strip ''1 2 3 4 A M'')" by code_simp
  have h2: "\<forall>l\<in>set [''Note: x'', ''1 2 3 4 A M'']. \<not> is_table_start (strip l)"
    using a b by simp
  from no_rows_before_header[OF h1 h2] a b show ?thesis by blast
qed

text \<open>
  C2 as stated fails when the \<open>Legends :\<close> line directly follows a header line: the pending
  skip takes the line before the \<open>Legends :\<close> test is reached, the table flag stays set, and
  the next line yields a row.
\<close>

theorem legends_after_header_counterexample:
  "contains ''Legends :'' (strip ''Legends :'') \<and>
   \<not> is_table_start (strip ''1 2 3 4 A M'') \<and>
   parse_text_file (''Sr. AIR NEET'' @ [CHR 0x0A] @ ''Legends :'' @ [CHR 0x0A] @ ''1 2 3 4 A M'') =
     Inr [\<lparr>sr_no = ''1'', air = ''2'', neet_roll_no = ''3'', cet_form_no = ''4'', name = ''A'',
           gender = ''M'', category = [], quota = [], college_code = [], college_name = []\<rparr>]"
  by code_simp

text \<open>
  C2, as the code has it: a line with \<open>Legends :\<close> that is not a table-start line and is
  read while no skip is pending clears the table flag and adds no row, and no line after
  it adds a row until a table-start line comes.
\<close>

theorem legends_ends_table:
  assumes "contains ''Legends :'' (strip l)" and "\<not> is_table_start (strip l)"
    and "\<not> skip_next_line st" and "\<forall>x\<in>set ls. \<not> is_table_start (strip x)"
  shows "process_line st l = Inr (st\<lparr>in_table := False\<rparr>) \<and>
         (\<exists>st'. parse_lines st (l # ls) = Inr st' \<and> data st' = data st \<and> \<not> in_table st')"
proof -
  have p: "process_line st l = Inr (st\<lparr>in_table := False\<rparr>)"
    using assms(1-3) by (rule process_line_legends)
  have "\<not> in_table (st\<lparr>in_table := False\<rparr>)" by simp
  from parse_lines_outside[OF this assms(4)] obtain st' where
    "parse_lines (st\<lparr>in_table := False\<rparr>) ls = Inr st'" "data st' = data st" "\<not> in_table st'"
    by auto
  with p show ?thesis by simp
qed

theorem legends_ends_table_witness:
  "contains ''Legends :'' (strip '' Legends : x'') \<and> \<not> is_table_start (strip '' Legends : x'') \<and>
   \<not> is_table_start (strip ''1 2 3 4 A M'') \<and>
   process_line \<lparr>in_table = True, skip_next_line = False, data = [], row_count = 0, skipped_lines = 0\<rparr>
       '' Legends : x'' =
     Inr \<lparr>in_table = False, skip_next_line = False, data = [], row_count = 0, skipped_lines = 0\<rparr> \<and>
   (\<exists>st'. parse_lines \<lparr>in_table = True, skip_next_line = False, data = [], row_count = 0, skipped_lines = 0\<rparr>
             ['' Legends : x'', ''1 2 3 4 A M''] = Inr st' \<and> data st' = [] \<and> \<not> in_table st')"
proof -
  have a: "contains ''Legends :'' (strip '' Legends : x'')" by code_simp
  have b: "\<not> is_table_start (strip '' Legends : x'')" by code_simp
  have c: "\<not> is_table_start (strip ''1 2 3 4 A M'')" by code_simp
  have d: "\<not> skip_next_line \<lparr>in_table = True, skip_next_line = False, data = [], row_count = 0, skipped_lines = 0\<rparr>"
    by simp
  have e: "\<forall>x\<in>set [''1 2 3 4 A M'']. \<not> is_table_start (strip x)" using c by simp
  from legends_ends_table[OF a b d e] a b c show ?thesis by (simp del: parse_lines.simps)
qed

text \<open>
  C3 as stated fails: header line, white-space-only line, valid data line yields no row.
\<close>

theorem blank_after_header_counterexample:
  "is_table_start (strip ''Sr. AIR NEET'') \<and> strip ''   '' = [] \<and>
   takeWhile isdigit (split_ws (strip ''1 2 3 4 A M'')) = [''1'', ''2'', ''3'', ''4''] \<and>
   parse_text_file (''Sr. AIR NEET'' @ [CHR 0x0A] @ ''   '' @ [CHR 0x0A] @ ''1 2 3 4 A M'') = Inr []"
  by code_simp

text \<open>
  C3, as the code has it: a white-space-only line after a header line is dropped as empty
  before the pending skip is looked at, so the skip stays pending and takes the next
  non-empty line that is not a table-start line; a data line in that place adds no row.
\<close>

theorem pending_skip_survives_blank:
  assumes "is_table_start (strip h)" and "strip b = []"
    and "strip d \<noteq> []" and "\<not> is_table_start (strip d)"
  shows "parse_lines st [h, b, d] =
           Inr (st\<lparr>in_table := True, skip_next_line := False,
                    skipped_lines := skipped_lines st + 2\<rparr>)"
  using assms
  by (simp add: process_line_header process_line_blank process_line_pending skipped_def)

theorem pending_skip_survives_blank_witness:
  "is_table_start (strip ''Sr. AIR NEET'') \<and> strip ''   '' = [] \<and> strip ''1 2 3 4 A M'' \<noteq> [] \<and>
   \<not> is_table_start (strip ''1 2 3 4 A M'') \<and>
   parse_lines init_state [''Sr. AIR NEET'', ''   '', ''1 2 3 4 A M''] =
     Inr \<lparr>in_table = True, skip_next_line = False, data = [], row_count = 0, skipped_lines = 2\<rparr>"
proof -
  have a: "is_table_start (strip ''Sr. AIR NEET'')" by code_simp
  have b: "strip ''   '' = []" by code_simp
  have c: "strip ''1 2 3 4 A M'' \<noteq> []" by code_simp
  have d: "\<not> is_table_start (strip ''1 2 3 4 A M'')" by code_simp
  from pending_skip_survives_blank[OF a b c d, of init_state] a b c d
  show ?thesis by (simp add: init_state_def)
qed

text \<open>
  C4: a line that reaches the extractor with fewer than four leading all-digit tokens adds
  no row; the state is unchanged but for the skipped-line counter, the table flag stays
  set, and the loop goes on with the lines that follow.
\<close>

theorem short_row_rejected:
  assumes "in_table_line st raw"
    and "length (takeWhile isdigit (split_ws (strip raw))) < 4"
  shows "\<exists>st'. process_line st raw = Inr st' \<and> (st' = skipped st \<or> st' = st) \<and>
           data st' = data st \<and> in_table st' \<and>
           parse_lines st (raw # rest) = parse_lines st' rest"
proof -
  from assms(1) have it: "in_table st" by (simp add: in_table_line_def Let_def)
  from extract_row_reject[OF assms(2)] show ?thesis
  proof
    assume "extract_row (split_ws (strip raw)) = Inr NotDataRow"
    then have "process_line st raw = Inr (skipped st)"
      by (simp add: process_line_in_table[OF assms(1)])
    with it show ?thesis by (simp add: skipped_def)
  next
    assume "extract_row (split_ws (strip raw)) = Inr InvalidField"
    then have "process_line st raw = Inr st"
      by (simp add: process_line_in_table[OF assms(1)])
    with it show ?thesis by simp
  qed
qed


theorem short_row_rejected_witness:
  "in_table_line \<lparr>in_table = True, skip_next_line = False, data = [], row_count = 0, skipped_lines = 0\<rparr>
      ''1 2 x 4 A M'' \<and>
   length (takeWhile isdigit (split_ws (strip ''1 2 x 4 A M''))) < 4 \<and>
   (\<exists>st'. process_line \<lparr>in_table = True, skip_next_line = False, data = [], row_count = 0, skipped_lines = 0\<rparr>
              ''1 2 x 4 A M'' = Inr st' \<and>
      (st' = skipped \<lparr>in_table = True, skip_next_line = False, data = [], row_count = 0, skipped_lines = 0\<rparr> \<or>
       st' = \<lparr>in_table = True, skip_next_line = False, data = [], row_count = 0, skipped_lines = 0\<rparr>) \<and>
      data st' = [] \<and> in_table st' \<and>
      parse_lines \<lparr>in_table = True, skip_next_line = False, data = [], row_count = 0, skipped_lines = 0\<rparr>
        [''1 2 x 4 A M'', ''5 6 7 8 B F''] = parse_lines st' [''5 6 7 8 B F''])"
proof -
  have a: "in_table_line \<lparr>in_table = True, skip_next_line = False, data = [], row_count = 0, skipped_lines = 0\<rparr>
      ''1 2 x 4 A M''" by code_simp
  have b: "length (takeWhile isdigit (split_ws (strip ''1 2 x 4 A M''))) < 4" by code_simp
  from short_row_rejected[OF a b, of "[''5 6 7 8 B F'']"] a b show ?thesis
    by (simp del: parse_lines.simps)
qed

section \<open>Rows of accepted lines\<close>

lemma strip_Nil: "strip [] = []"
  by (simp add: strip_def)

lemma dropWhile_hd_id: "s \<noteq> [] \<Longrightarrow> \<not> P (hd s) \<Longrightarrow> dropWhile P s = s"
  by (cases s) simp_all

lemma strip_id:
  assumes "s \<noteq> []" and "\<not> isspace_ch (hd s)" and "\<not> isspace_ch (last s)"
  shows "strip s = s"
proof -
  have "dropWhile isspace_ch s = s" using assms(1,2) by (rule dropWhile_hd_id)
  moreover have "dropWhile isspace_ch (rev s) = rev s"
    using assms(1,3) by (intro dropWhile_hd_id) (simp_all add: hd_rev)
  ultimately show ?thesis by (simp add: strip_def)
qed

lemma quota_field_eq:
  "quota_field parts idx =
     Inr (if startswith (join_sp (takeWhile (\<lambda>t. \<not> match_code t) (drop idx parts))) ''Choice''
          then ''Choice Not Available''
          else join_sp (takeWhile (\<lambda>t. \<not> match_code t) (drop idx parts)),
          idx + length (takeWhile (\<lambda>t. \<not> match_code t) (drop idx parts)))"
  by (simp add: quota_field_def quota_loop_eq Let_def)

lemma category_field_at:
  "category_field (pre @ after) (length pre) =
     (case category_field after 0 of Inl e \<Rightarrow> Inl e | Inr (c, i) \<Rightarrow> Inr (c, length pre + i))"
  by (simp add: category_field_def tok_is_eq nth_py_def nth_append)

lemma extract_row_shape:
  assumes dg: "isdigit d1" "isdigit d2" "isdigit d3" "isdigit d4"
    and ns: "\<forall>t\<in>set ns. t \<notin> set [''M'', ''F'']"
    and g: "g \<in> set [''M'', ''F'']"
    and cat: "category_field after 0 = Inr (cat, k)"
  shows "\<exists>r. extract_row (d1 # d2 # d3 # d4 # ns @ g # after) = Inr (Parsed r) \<and>
           sr_no r = d1 \<and> air r = d2 \<and> neet_roll_no r = d3 \<and> cet_form_no r = d4 \<and>
           name r = join_sp ns \<and> gender r = g \<and> category r = cat \<and>
           quota r =
             (if startswith (join_sp (takeWhile (\<lambda>t. \<not> match_code t) (drop k after))) ''Choice''
              then ''Choice Not Available''
              else join_sp (takeWhile (\<lambda>t. \<not> match_code t) (drop k after)))"
proof -
  define pre where "pre = d1 # d2 # d3 # d4 # ns @ [g]"
  define parts where "parts = pre @ after"
  have parts: "parts = d1 # d2 # d3 # d4 # ns @ g # after"
    by (simp add: parts_def pre_def)
  have lp: "length pre = 4 + length ns + 1" by (simp add: pre_def)
  have tw: "takeWhile (\<lambda>t. t \<notin> set [''M'', ''F'']) (drop 4 parts) = ns"
    using ns g by (simp add: parts takeWhile_tail)
  have acc: "4 \<le> length (takeWhile isdigit parts)"
    using dg by (simp add: parts)
  have gi: "parts ! (4 + length ns) = g"
    by (simp add: parts nth_append)
  have gl: "4 + length ns < length parts" by (simp add: parts)
  from extract_row_accept[OF acc] obtain g' i6 cat' i7 q i8 code cname where
    a: "gender_field parts (4 + length ns) = Inr (g', i6)"
       "category_field parts i6 = Inr (cat', i7)"
       "quota_field parts i7 = Inr (q, i8)"
    and e: "extract_row parts =
       Inr (Parsed \<lparr>sr_no = parts ! 0, air = parts ! 1, neet_roll_no = parts ! 2,
                    cet_form_no = parts ! 3, name = join_sp ns,
                    gender = g', category = cat', quota = q,
                    college_code = code, college_name = cname\<rparr>)"
    unfolding tw by blast
  from a(1) g gi gl have g': "g' = g" "i6 = length pre"
    by (auto simp: gender_field_eq lp)
  from a(2) cat have c': "cat' = cat" "i7 = length pre + k"
    by (simp_all add: g' parts_def category_field_at)
  have dr: "drop (length pre + k) parts = drop k after"
    by (simp add: parts_def)
  from a(3) have q: "q = (if startswith (join_sp (takeWhile (\<lambda>t. \<not> match_code t) (drop k after))) ''Choice''
              then ''Choice Not Available''
              else join_sp (takeWhile (\<lambda>t. \<not> match_code t) (drop k after)))"
    unfolding quota_field_eq c' dr by auto
  have nth: "parts ! 0 = d1" "parts ! 1 = d2" "parts ! 2 = d3" "parts ! 3 = d4"
    by (simp_all add: parts)
  show ?thesis
    unfolding parts[symmetric] e nth
    by (simp add: g' c' q)
qed


lemma process_line_emits:
  "in_table_line st raw \<Longrightarrow> extract_row (split_ws (strip raw)) = Inr (Parsed r) \<Longrightarrow>
   process_line st raw = Inr (st\<lparr>data := data st @ [r], row_count := row_count st + 1\<rparr>)"
  by (simp add: process_line_in_table)

lemma valid_not_code: "c \<in> VALID_CATEGORIES \<Longrightarrow> \<not> match_code c"
  by (auto simp: VALID_CATEGORIES_def match_code_def isdecimal_ch_def)

lemma valid_not_choice: "c \<in> VALID_CATEGORIES \<Longrightarrow> \<not> startswith (c @ CHR '' '' # x) ''Choice''"
  by (auto simp: VALID_CATEGORIES_def)

lemma valid_hd: "c \<in> VALID_CATEGORIES \<Longrightarrow> c \<noteq> [] \<and> \<not> isspace_ch (hd c) \<and> \<not> isspace_ch (last c)"
  by (auto simp: VALID_CATEGORIES_def isspace_ch_def)

lemma sub_codes_valid: "s \<in> sub_codes \<Longrightarrow> s \<in> VALID_CATEGORIES"
  by (auto simp: VALID_CATEGORIES_def sub_codes_def)

lemma sub_codes_not_W: "s \<in> sub_codes \<Longrightarrow> \<not> match_W s"
  by (auto simp: sub_codes_def match_W_def)

lemma category_before_W:
  "c \<in> VALID_CATEGORIES \<Longrightarrow> category_field (c # ''(W)'' # rest) 0 = Inr ([], 0)"
  by (simp add: category_field_def tok_is_eq match_W_def strip_Nil)

lemma category_compound:
  assumes "c \<in> VALID_CATEGORIES" and "s \<in> sub_codes"
  shows "category_field (c # s # rest) 0 =
           Inr (if c \<in> sub_codes then (c, 1) else (c @ '' '' @ s, 2))"
proof -
  have sc: "strip c = c" using valid_hd[OF assms(1)] by (simp add: strip_id)
  have "c @ '' '' @ s \<noteq> [] \<and> \<not> isspace_ch (hd (c @ '' '' @ s)) \<and>
        \<not> isspace_ch (last (c @ '' '' @ s))"
    using valid_hd[OF assms(1)] valid_hd[OF sub_codes_valid[OF assms(2)]] by simp
  then have scs: "strip (c @ '' '' @ s) = c @ '' '' @ s" by (simp add: strip_id)
  show ?thesis
    using assms sub_codes_not_W[OF assms(2)] sc scs
    by (simp add: category_field_def tok_is_eq nth_py_def)
qed

subsection \<open>Category and quota\<close>

text \<open>
  C5: the line reaches the extractor and its tokens are four numeric fields, the name
  tokens, a gender token, then a vocabulary token followed by the token \<open>(W)\<close>. The row is
  appended with an empty category, and the vocabulary token is the first token of the
  quota, followed by \<open>(W)\<close> and the tokens up to the college code.
\<close>

theorem category_suppressed_before_W:
  assumes line: "in_table_line st raw"
    and toks: "split_ws (strip raw) = d1 # d2 # d3 # d4 # ns @ g # c # ''(W)'' # rest"
    and dg: "isdigit d1" "isdigit d2" "isdigit d3" "isdigit d4"
    and ns: "\<forall>t\<in>set ns. t \<notin> set [''M'', ''F'']"
    and g: "g \<in> set [''M'', ''F'']"
    and c: "c \<in> VALID_CATEGORIES"
  shows "\<exists>r. process_line st raw =
                Inr (st\<lparr>data := data st @ [r], row_count := row_count st + 1\<rparr>) \<and>
              category r = [] \<and>
              quota r = join_sp (c # ''(W)'' # takeWhile (\<lambda>t. \<not> match_code t) rest)"
proof -
  have w: "\<not> match_code ''(W)''" by (simp add: match_code_def isdecimal_ch_def)
  from extract_row_shape[OF dg ns g category_before_W[OF c], of rest]
  obtain r where r: "extract_row (split_ws (strip raw)) = Inr (Parsed r)" "category r = []"
    "quota r = (if startswith (join_sp (takeWhile (\<lambda>t. \<not> match_code t) (c # ''(W)'' # rest))) ''Choice''
              then ''Choice Not Available''
              else join_sp (takeWhile (\<lambda>t. \<not> match_code t) (c # ''(W)'' # rest)))"
    unfolding toks by auto
  have tw: "takeWhile (\<lambda>t. \<not> match_code t) (c # ''(W)'' # rest) =
      c # ''(W)'' # takeWhile (\<lambda>t. \<not> match_code t) rest"
    using valid_not_code[OF c] w by simp
  have "quota r = join_sp (c # ''(W)'' # takeWhile (\<lambda>t. \<not> match_code t) rest)"
    unfolding r(3) tw using valid_not_choice[OF c] by simp
  with process_line_emits[OF line r(1)] r(2) show ?thesis by blast
qed

theorem category_suppressed_before_W_witness:
  "in_table_line \<lparr>in_table = True, skip_next_line = False, data = [], row_count = 0, skipped_lines = 0\<rparr>
      ''7 42 1001 2002 ASHA RAO F OBC (W) State 1234:GMC'' \<and>
   split_ws (strip ''7 42 1001 2002 ASHA RAO F OBC (W) State 1234:GMC'') =
     ''7'' # ''42'' # ''1001'' # ''2002'' # [''ASHA'', ''RAO''] @ ''F'' # ''OBC'' # ''(W)'' # [''State'', ''1234:GMC''] \<and>
   ''OBC'' \<in> VALID_CATEGORIES \<and>
   (\<exists>r. process_line \<lparr>in_table = True, skip_next_line = False, data = [], row_count = 0, skipped_lines = 0\<rparr>
            ''7 42 1001 2002 ASHA RAO F OBC (W) State 1234:GMC'' =
          Inr \<lparr>in_table = True, skip_next_line = False, data = [r], row_count = 1, skipped_lines = 0\<rparr> \<and>
        category r = [] \<and> quota r = ''OBC (W) State'')"
proof -
  have a: "in_table_line \<lparr>in_table = True, skip_next_line = False, data = [], row_count = 0, skipped_lines = 0\<rparr>
      ''7 42 1001 2002 ASHA RAO F OBC (W) State 1234:GMC''" by code_simp
  have b: "split_ws (strip ''7 42 1001 2002 ASHA RAO F OBC (W) State 1234:GMC'') =
     ''7'' # ''42'' # ''1001'' # ''2002'' # [''ASHA'', ''RAO''] @ ''F'' # ''OBC'' # ''(W)'' # [''State'', ''1234:GMC'']"
    by code_simp
  have d: "isdigit ''7''" "isdigit ''42''" "isdigit ''1001''" "isdigit ''2002''" by code_simp+
  have n: "\<forall>t\<in>set [''ASHA'', ''RAO'']. t \<notin> set [''M'', ''F'']" by simp
  have g: "''F'' \<in> set [''M'', ''F'']" by simp
  have c: "''OBC'' \<in> VALID_CATEGORIES" by (simp add: VALID_CATEGORIES_def)
  have q: "join_sp (''OBC'' # ''(W)'' # takeWhile (\<lambda>t. \<not> match_code t) [''State'', ''1234:GMC'']) = ''OBC (W) State''"
    by code_simp
  from category_suppressed_before_W[OF a b d n g c] a b c show ?thesis
    unfolding q by simp
qed

text \<open>
  C6: at the category position stand a vocabulary token \<open>c\<close> and a sub-code \<open>s\<close>. When
  \<open>c\<close> is not itself a sub-code the category is \<open>c\<close>, one space, \<open>s\<close>; when \<open>c\<close> is a
  sub-code the category is \<open>c\<close> alone.
\<close>

theorem compound_category:
  assumes line: "in_table_line st raw"
    and toks: "split_ws (strip raw) = d1 # d2 # d3 # d4 # ns @ g # c # s # rest"
    and dg: "isdigit d1" "isdigit d2" "isdigit d3" "isdigit d4"
    and ns: "\<forall>t\<in>set ns. t \<notin> set [''M'', ''F'']"
    and g: "g \<in> set [''M'', ''F'']"
    and c: "c \<in> VALID_CATEGORIES"
    and s: "s \<in> sub_codes"
  shows "\<exists>r. process_line st raw =
                Inr (st\<lparr>data := data st @ [r], row_count := row_count st + 1\<rparr>) \<and>
              category r = (if c \<in> sub_codes then c else c @ '' '' @ s)"
proof (cases "c \<in> sub_codes")
  case True
  then have "category_field (c # s # rest) 0 = Inr (c, 1)"
    using category_compound[OF c s] by simp
  from extract_row_shape[OF dg ns g this]
  obtain r where "extract_row (split_ws (strip raw)) = Inr (Parsed r)" "category r = c"
    unfolding toks by auto
  with process_line_emits[OF line] True show ?thesis by auto
next
  case False
  then have "category_field (c # s # rest) 0 = Inr (c @ '' '' @ s, 2)"
    using category_compound[OF c s] by simp
  from extract_row_shape[OF dg ns g this]
  obtain r where "extract_row (split_ws (strip raw)) = Inr (Parsed r)" "category r = c @ '' '' @ s"
    unfolding toks by auto
  with process_line_emits[OF line] False show ?thesis by auto
qed

theorem compound_category_witness:
  "in_table_line \<lparr>in_table = True, skip_next_line = False, data = [], row_count = 0, skipped_lines = 0\<rparr>
      ''1 2 3 4 RAVI M SC PWD State 12:GMC'' \<and>
   ''SC'' \<in> VALID_CATEGORIES \<and> ''SC'' \<notin> sub_codes \<and> ''PWD'' \<in> sub_codes \<and> ''D1'' \<in> sub_codes \<and>
   (\<exists>r. process_line \<lparr>in_table = True, skip_next_line = False, data = [], row_count = 0, skipped_lines = 0\<rparr>
            ''1 2 3 4 RAVI M SC PWD State 12:GMC'' =
          Inr \<lparr>in_table = True, skip_next_line = False, data = [r], row_count = 1, skipped_lines = 0\<rparr> \<and>
        category r = ''SC PWD'') \<and>
   (\<exists>r. process_line \<lparr>in_table = True, skip_next_line = False, data = [], row_count = 0, skipped_lines = 0\<rparr>
            ''1 2 3 4 RAVI M PWD D1 State 12:GMC'' =
          Inr \<lparr>in_table = True, skip_next_line = False, data = [r], row_count = 1, skipped_lines = 0\<rparr> \<and>
        category r = ''PWD'')"
proof -
  have a1: "in_table_line \<lparr>in_table = True, skip_next_line = False, data = [], row_count = 0, skipped_lines = 0\<rparr>
      ''1 2 3 4 RAVI M SC PWD State 12:GMC''" by code_simp
  have a2: "in_table_line \<lparr>in_table = True, skip_next_line = False, data = [], row_count = 0, skipped_lines = 0\<rparr>
      ''1 2 3 4 RAVI M PWD D1 State 12:GMC''" by code_simp
  have b1: "split_ws (strip ''1 2 3 4 RAVI M SC PWD State 12:GMC'') =
     ''1'' # ''2'' # ''3'' # ''4'' # [''RAVI''] @ ''M'' # ''SC'' # ''PWD'' # [''State'', ''12:GMC'']"
    by code_simp
  have b2: "split_ws (strip ''1 2 3 4 RAVI M PWD D1 State 12:GMC'') =
     ''1'' # ''2'' # ''3'' # ''4'' # [''RAVI''] @ ''M'' # ''PWD'' # ''D1'' # [''State'', ''12:GMC'']"
    by code_simp
  have d: "isdigit ''1''" "isdigit ''2''" "isdigit ''3''" "isdigit ''4''" by code_simp+
  have n: "\<forall>t\<in>set [''RAVI'']. t \<notin> set [''M'', ''F'']" by simp
  have g: "''M'' \<in> set [''M'', ''F'']" by simp
  have c: "''SC'' \<in> VALID_CATEGORIES" "''SC'' \<notin> sub_codes" "''PWD'' \<in> VALID_CATEGORIES"
      "''PWD'' \<in> sub_codes" "''D1'' \<in> sub_codes"
    by (simp_all add: VALID_CATEGORIES_def sub_codes_def)
  from compound_category[OF a1 b1 d n g c(1) c(4)] compound_category[OF a2 b2 d n g c(3) c(5)]
    a1 c
  show ?thesis by simp
qed

text \<open>
  C7: \<open>after\<close> are the tokens behind the gender token and \<open>k\<close> of them are taken by the
  category block. When the space-joined tokens from there up to the first college-code
  token (or the end of the line) start with \<open>Choice\<close>, whatever follows, the quota of the
  appended row is the literal \<open>Choice Not Available\<close>. (A line without a gender token has
  no quota tokens, so the premise covers every line it can hold for.)
\<close>

theorem quota_choice_normalised:
  assumes line: "in_table_line st raw"
    and toks: "split_ws (strip raw) = d1 # d2 # d3 # d4 # ns @ g # after"
    and dg: "isdigit d1" "isdigit d2" "isdigit d3" "isdigit d4"
    and ns: "\<forall>t\<in>set ns. t \<notin> set [''M'', ''F'']"
    and g: "g \<in> set [''M'', ''F'']"
    and cat: "category_field after 0 = Inr (cat, k)"
    and ch: "startswith (join_sp (takeWhile (\<lambda>t. \<not> match_code t) (drop k after))) ''Choice''"
  shows "\<exists>r. process_line st raw =
                Inr (st\<lparr>data := data st @ [r], row_count := row_count st + 1\<rparr>) \<and>
              quota r = ''Choice Not Available''"
proof -
  from extract_row_shape[OF dg ns g cat]
  obtain r where "extract_row (split_ws (strip raw)) = Inr (Parsed r)"
    "quota r = ''Choice Not Available''"
    unfolding toks using ch by auto
  with process_line_emits[OF line] show ?thesis by blast
qed

theorem quota_choice_normalised_witness:
  "in_table_line \<lparr>in_table = True, skip_next_line = False, data = [], row_count = 0, skipped_lines = 0\<rparr>
      ''1 2 3 4 RAVI M OBC Choice Filled Elsewhere 12:GMC'' \<and>
   category_field [''OBC'', ''Choice'', ''Filled'', ''Elsewhere'', ''12:GMC''] 0 = Inr (''OBC'', 1) \<and>
   join_sp (takeWhile (\<lambda>t. \<not> match_code t) (drop 1 [''OBC'', ''Choice'', ''Filled'', ''Elsewhere'', ''12:GMC'']))
     = ''Choice Filled Elsewhere'' \<and>
   (\<exists>r. process_line \<lparr>in_table = True, skip_next_line = False, data = [], row_count = 0, skipped_lines = 0\<rparr>
            ''1 2 3 4 RAVI M OBC Choice Filled Elsewhere 12:GMC'' =
          Inr \<lparr>in_table = True, skip_next_line = False, data = [r], row_count = 1, skipped_lines = 0\<rparr> \<and>
        quota r = ''Choice Not Available'')"
proof -
  have a: "in_table_line \<lparr>in_table = True, skip_next_line = False, data = [], row_count = 0, skipped_lines = 0\<rparr>
      ''1 2 3 4 RAVI M OBC Choice Filled Elsewhere 12:GMC''" by code_simp
  have b: "split_ws (strip ''1 2 3 4 RAVI M OBC Choice Filled Elsewhere 12:GMC'') =
     ''1'' # ''2'' # ''3'' # ''4'' # [''RAVI''] @ ''M'' # [''OBC'', ''Choice'', ''Filled'', ''Elsewhere'', ''12:GMC'']"
    by code_simp
  have d: "isdigit ''1''" "isdigit ''2''" "isdigit ''3''" "isdigit ''4''" by code_simp+
  have n: "\<forall>t\<in>set [''RAVI'']. t \<notin> set [''M'', ''F'']" by simp
  have g: "''M'' \<in> set [''M'', ''F'']" by simp
  have c: "category_field [''OBC'', ''Choice'', ''Filled'', ''Elsewhere'', ''12:GMC''] 0 = Inr (''OBC'', 1)"
    by code_simp
  have j: "join_sp (takeWhile (\<lambda>t. \<not> match_code t) (drop 1 [''OBC'', ''Choice'', ''Filled'', ''Elsewhere'', ''12:GMC'']))
     = ''Choice Filled Elsewhere''" by code_simp
  have s: "startswith (join_sp (takeWhile (\<lambda>t. \<not> match_code t)
      (drop 1 [''OBC'', ''Choice'', ''Filled'', ''Elsewhere'', ''12:GMC'']))) ''Choice''"
    unfolding j by simp
  from quota_choice_normalised[OF a b d n g c s] a c j show ?thesis by simp
qed

lemma extract_row_no_gender:
  assumes e: "extract_row parts = Inr (Parsed r)" and ge: "gender r = []"
  shows "category r = [] \<and> quota r = [] \<and> college_code r = [] \<and> college_name r = []"
proof -
  define i5 where "i5 = 4 + length (takeWhile (\<lambda>t. t \<notin> set [''M'', ''F'']) (drop 4 parts))"
  have acc: "4 \<le> length (takeWhile isdigit parts)"
  proof (rule ccontr)
    assume "\<not> 4 \<le> length (takeWhile isdigit parts)"
    then have "length (takeWhile isdigit parts) < 4" by simp
    from extract_row_reject[OF this] e show False by auto
  qed
  then have len: "4 \<le> length parts"
    using length_takeWhile_le[of isdigit parts] by linarith
  from extract_row_accept[OF acc] e obtain g i6 cat i7 q i8 code cname where
    a: "gender_field parts i5 = Inr (g, i6)"
       "category_field parts i6 = Inr (cat, i7)"
       "quota_field parts i7 = Inr (q, i8)"
       "college_fields parts i8 = Inr (code, cname)"
    and r: "gender r = g" "category r = cat" "quota r = q" "college_code r = code"
       "college_name r = cname"
    unfolding i5_def by auto
  have end5: "length parts \<le> i5"
  proof (rule ccontr)
    assume "\<not> length parts \<le> i5"
    then have lt: "i5 < length parts" by simp
    then have "length (takeWhile (\<lambda>t. t \<notin> set [''M'', ''F'']) (drop 4 parts)) < length (drop 4 parts)"
      by (simp add: i5_def)
    from nth_length_takeWhile[OF this] len
    have "parts ! i5 \<in> set [''M'', ''F'']"
      by (simp add: i5_def)
    with a(1) lt have "g = parts ! i5" by (simp add: gender_field_eq)
    with \<open>parts ! i5 \<in> set [''M'', ''F'']\<close> ge r(1) show False by auto
  qed
  with a(1) have i6: "i6 = i5" by (simp add: gender_field_eq)
  from a(2) end5 have c: "cat = []" "i7 = i5"
    by (simp_all add: i6 category_field_def tok_is_eq strip_Nil)
  from a(3) end5 have q: "q = []" "i8 = i5"
    by (simp_all add: c quota_field_eq)
  from a(4) end5 have "code = []" "cname = []"
    by (simp_all add: q college_fields_def)
  with c q r show ?thesis by simp
qed

lemma process_line_rows:
  assumes "process_line st raw = Inr st'"
  shows "data st' = data st \<or> (\<exists>r. extract_row (split_ws (strip raw)) = Inr (Parsed r) \<and> data st' = data st @ [r])"
  using assms
  by (auto simp: process_line_def Let_def skipped_def split: if_splits sum.splits row_result.splits)

lemma parse_lines_rows:
  assumes "parse_lines st ls = Inr st'"
    and "\<forall>r\<in>set (data st). \<exists>parts. extract_row parts = Inr (Parsed r)"
  shows "\<forall>r\<in>set (data st'). \<exists>parts. extract_row parts = Inr (Parsed r)"
  using assms
proof (induction ls arbitrary: st)
  case Nil
  then show ?case by simp
next
  case (Cons l ls)
  from Cons.prems(1) obtain st1 where s1: "process_line st l = Inr st1" "parse_lines st1 ls = Inr st'"
    by (auto split: sum.splits)
  from process_line_rows[OF s1(1)] Cons.prems(2)
  have "\<forall>r\<in>set (data st1). \<exists>parts. extract_row parts = Inr (Parsed r)" by auto
  from Cons.IH[OF s1(2) this] show ?case .
qed

subsection \<open>Rows without a gender\<close>

text \<open>
  C10: in every row of the result, an empty gender comes with an empty category, quota,
  college code and college name.
\<close>

theorem no_gender_no_later_fields:
  assumes "parse_text_file text = Inr rows" and "r \<in> set rows" and "gender r = []"
  shows "category r = [] \<and> quota r = [] \<and> college_code r = [] \<and> college_name r = []"
proof -
  from assms(1) obtain st where st: "parse_lines init_state (split_sep CHR 0x0A text) = Inr st"
    "rows = data st"
    by (auto simp: parse_text_file_def split: sum.splits)
  have "\<forall>r\<in>set (data init_state). \<exists>parts. extract_row parts = Inr (Parsed r)"
    by (simp add: init_state_def)
  from parse_lines_rows[OF st(1) this] assms(2) st(2)
  obtain parts where "extract_row parts = Inr (Parsed r)" by auto
  from extract_row_no_gender[OF this assms(3)] show ?thesis .
qed


theorem no_gender_no_later_fields_witness:
  "parse_text_file (''Sr. AIR NEET'' @ [CHR 0x0A] @ ''No.'' @ [CHR 0x0A] @ ''1 2 3 4 JOHN DOE'') =
     Inr [\<lparr>sr_no = ''1'', air = ''2'', neet_roll_no = ''3'', cet_form_no = ''4'', name = ''JOHN DOE'',
           gender = [], category = [], quota = [], college_code = [], college_name = []\<rparr>] \<and>
   (\<exists>rows r. parse_text_file (''Sr. AIR NEET'' @ [CHR 0x0A] @ ''No.'' @ [CHR 0x0A] @ ''1 2 3 4 JOHN DOE'') = Inr rows \<and>
      r \<in> set rows \<and> gender r = [] \<and>
      category r = [] \<and> quota r = [] \<and> college_code r = [] \<and> college_name r = [])"
proof -
  have p: "parse_text_file (''Sr. AIR NEET'' @ [CHR 0x0A] @ ''No.'' @ [CHR 0x0A] @ ''1 2 3 4 JOHN DOE'') =
     Inr [\<lparr>sr_no = ''1'', air = ''2'', neet_roll_no = ''3'', cet_form_no = ''4'', name = ''JOHN DOE'',
           gender = [], category = [], quota = [], college_code = [], college_name = []\<rparr>]"
    by code_simp
  have m: "\<lparr>sr_no = ''1'', air = ''2'', neet_roll_no = ''3'', cet_form_no = ''4'', name = ''JOHN DOE'',
           gender = [], category = [], quota = [], college_code = [], college_name = []\<rparr>
        \<in> set [\<lparr>sr_no = ''1'', air = ''2'', neet_roll_no = ''3'', cet_form_no = ''4'', name = ''JOHN DOE'',
           gender = [], category = [], quota = [], college_code = [], college_name = []\<rparr>]"
    by simp
  have g: "gender \<lparr>sr_no = ''1'', air = ''2'', neet_roll_no = ''3'', cet_form_no = ''4'', name = ''JOHN DOE'',
           gender = [], category = [], quota = [], college_code = [], college_name = []\<rparr> = []"
    by simp
  from no_gender_no_later_fields[OF p m g] p m g show ?thesis by blast
qed

lemma split_sep_append:
  "c \<notin> set a \<Longrightarrow> split_sep c (a @ c # b) = a # split_sep c b"
  by (induction a) auto

lemma split_sep_single: "c \<notin> set a \<Longrightarrow> split_sep c a = [a]"
  by (induction a) auto

lemma strip_keeps_prefix:
  assumes "p \<noteq> []" and "\<not> isspace_ch (hd p)" and "\<not> isspace_ch (last p)"
  shows "\<exists>r. strip (p @ m) = p @ r"
proof -
  have "hd (p @ m) = hd p" using assms(1) by simp
  then have l: "dropWhile isspace_ch (p @ m) = p @ m"
    using assms(1,2) by (intro dropWhile_hd_id) simp_all
  have rp: "dropWhile isspace_ch (rev p) = rev p"
    using assms(1,3) by (intro dropWhile_hd_id) (simp_all add: hd_rev)
  have "\<exists>x. dropWhile isspace_ch (rev m @ rev p) = x @ rev p"
    by (simp add: dropWhile_append rp)
  then obtain x where "dropWhile isspace_ch (rev (p @ m)) = x @ rev p" by auto
  then have "strip (p @ m) = p @ rev x" by (simp add: strip_def l)
  then show ?thesis by blast
qed

lemma header_line_is_table_start:
  "is_table_start (strip (''Sr.     AIR     NEET Roll No.'' @ cols))"
proof -
  obtain r where "strip (''Sr.     AIR     NEET Roll No.'' @ cols) = ''Sr.     AIR     NEET Roll No.'' @ r"
    using strip_keeps_prefix[of "''Sr.     AIR     NEET Roll No.''" cols]
    by (auto simp: isspace_ch_def)
  then show ?thesis by (simp add: is_table_start_def)
qed

subsection \<open>End to end\<close>

text \<open>
  C1: the header line \<open>Sr.     AIR     NEET Roll No.\<close> with any further column titles, any
  non-blank sub-header line that is not itself a table start, the data line and the
  \<open>Legends :\<close> line give exactly the one row of the scenario.
\<close>

theorem end_to_end_scenario:
  assumes "CHR 0x0A \<notin> set cols" and "CHR 0x0A \<notin> set sub"
    and "strip sub \<noteq> []" and "\<not> is_table_start (strip sub)"
  shows "parse_text_file
           (''Sr.     AIR     NEET Roll No.'' @ cols @ [CHR 0x0A] @ sub @ [CHR 0x0A] @
            ''1 500 123456 7890 JOHN DOE M OBC State 1001:Govt Medical College'' @ [CHR 0x0A] @
            ''Legends :'') =
         Inr [\<lparr>sr_no = ''1'', air = ''500'', neet_roll_no = ''123456'', cet_form_no = ''7890'',
               name = ''JOHN DOE'', gender = ''M'', category = ''OBC'', quota = ''State'',
               college_code = ''1001'', college_name = ''Govt Medical College''\<rparr>]"
proof -
  define hdr where "hdr = ''Sr.     AIR     NEET Roll No.'' @ cols"
  define dat where "dat = ''1 500 123456 7890 JOHN DOE M OBC State 1001:Govt Medical College''"
  define r where "r = \<lparr>sr_no = ''1'', air = ''500'', neet_roll_no = ''123456'', cet_form_no = ''7890'',
               name = ''JOHN DOE'', gender = ''M'', category = ''OBC'', quota = ''State'',
               college_code = ''1001'', college_name = ''Govt Medical College''\<rparr>"
  define st1 where "st1 = init_state\<lparr>in_table := True, skip_next_line := True\<rparr>"
  define st2 where "st2 = (skipped st1)\<lparr>skip_next_line := False\<rparr>"
  define st3 where "st3 = st2\<lparr>data := data st2 @ [r], row_count := row_count st2 + 1\<rparr>"
  have nh: "CHR 0x0A \<notin> set hdr" using assms(1) by (simp add: hdr_def)
  have nd: "CHR 0x0A \<notin> set dat" by (simp add: dat_def)
  have nl: "CHR 0x0A \<notin> set ''Legends :''" by simp
  have "split_sep CHR 0x0A (hdr @ CHR 0x0A # sub @ CHR 0x0A # dat @ CHR 0x0A # ''Legends :'') =
      [hdr, sub, dat, ''Legends :'']"
    by (simp only: split_sep_append[OF nh] split_sep_append[OF assms(2)] split_sep_append[OF nd]
        split_sep_single[OF nl])
  then have lines: "split_sep CHR 0x0A
           (''Sr.     AIR     NEET Roll No.'' @ cols @ [CHR 0x0A] @ sub @ [CHR 0x0A] @
            ''1 500 123456 7890 JOHN DOE M OBC State 1001:Govt Medical College'' @ [CHR 0x0A] @
            ''Legends :'') = [hdr, sub, dat, ''Legends :'']"
    by (simp add: hdr_def dat_def)
  have p1: "process_line init_state hdr = Inr st1"
    unfolding hdr_def st1_def by (rule process_line_header[OF header_line_is_table_start])
  have p2: "process_line st1 sub = Inr st2"
    unfolding st2_def by (rule process_line_pending[OF assms(3,4)]) (simp add: st1_def)
  have c1: "strip dat \<noteq> []" unfolding dat_def by code_simp
  have c2: "\<not> is_table_start (strip dat)" unfolding dat_def by code_simp
  have c3: "\<not> contains ''Legends :'' (strip dat)" unfolding dat_def by code_simp
  have c4: "\<not> contains ''Current Selection Details'' (strip dat)" unfolding dat_def by code_simp
  have c5: "\<not> (startswith (strip dat) ''----'' \<or> startswith (strip dat) ''===='')"
    unfolding dat_def by code_simp
  have l3: "in_table_line st2 dat"
    using c1 c2 c3 c4 c5
    by (simp add: in_table_line_def Let_def st2_def st1_def skipped_def)
  have e3: "extract_row (split_ws (strip dat)) = Inr (Parsed r)"
    unfolding dat_def r_def by code_simp
  have p3: "process_line st2 dat = Inr st3"
    unfolding st3_def by (rule process_line_emits[OF l3 e3])
  have g1: "contains ''Legends :'' (strip ''Legends :'')" by code_simp
  have g2: "\<not> is_table_start (strip ''Legends :'')" by code_simp
  have p4: "process_line st3 ''Legends :'' = Inr (st3\<lparr>in_table := False\<rparr>)"
    by (rule process_line_legends[OF g1 g2]) (simp add: st3_def st2_def)
  have "parse_lines init_state [hdr, sub, dat, ''Legends :''] = Inr (st3\<lparr>in_table := False\<rparr>)"
    by (simp add: p1 p2 p3 p4)
  moreover have "data (st3\<lparr>in_table := False\<rparr>) = [r]"
    by (simp add: st3_def st2_def st1_def skipped_def init_state_def)
  ultimately show ?thesis
    unfolding parse_text_file_def lines r_def by simp
qed

theorem end_to_end_scenario_witness:
  "CHR 0x0A \<notin> set '' CET Form No. Name'' \<and> CHR 0x0A \<notin> set ''No.  Gender Category'' \<and>
   strip ''No.  Gender Category'' \<noteq> [] \<and> \<not> is_table_start (strip ''No.  Gender Category'') \<and>
   parse_text_file
           (''Sr.     AIR     NEET Roll No.'' @ '' CET Form No. Name'' @ [CHR 0x0A] @
            ''No.  Gender Category'' @ [CHR 0x0A] @
            ''1 500 123456 7890 JOHN DOE M OBC State 1001:Govt Medical College'' @ [CHR 0x0A] @
            ''Legends :'') =
         Inr [\<lparr>sr_no = ''1'', air = ''500'', neet_roll_no = ''123456'', cet_form_no = ''7890'',
               name = ''JOHN DOE'', gender = ''M'', category = ''OBC'', quota = ''State'',
               college_code = ''1001'', college_name = ''Govt Medical College''\<rparr>]"
proof -
  have a: "CHR 0x0A \<notin> set '' CET Form No. Name''" by simp
  have b: "CHR 0x0A \<notin> set ''No.  Gender Category''" by simp
  have c: "strip ''No.  Gender Category'' \<noteq> []" by code_simp
  have d: "\<not> is_table_start (strip ''No.  Gender Category'')" by code_simp
  from end_to_end_scenario[OF a b c d] a b c d show ?thesis by blast
qed

end
